theory Spec2Isabelle
  imports Complex_Main
begin

section \<open>Floating-point values and the point key\<close>

text \<open>
  The coordinates are Go \<open>float64\<close> values. Their type is left open as \<open>'f\<close>, and
  the four operations \<open>HashPoint\<close> performs on them are collected in a record, so
  that every theorem below holds for whatever the arithmetic of the platform does
  (rounding of products and sums, the conversion of a float to \<open>int\<close>).
\<close>

record 'f float_ops =
  fmul :: "'f \<Rightarrow> 'f \<Rightarrow> 'f"
  fadd :: "'f \<Rightarrow> 'f \<Rightarrow> 'f"
  fconst :: "int \<Rightarrow> 'f"
  ftoint :: "'f \<Rightarrow> int"

text \<open>\<open>NURBS_GEO = 18\<close>: geometry type in geodefs.\<close>

definition NURBS_GEO :: int where
  "NURBS_GEO = 18"

text \<open>\<open>HashPoint\<close>: \<open>int(x*10001 + y*1000001 + z*100000001)\<close>.\<close>

definition HashPoint :: "'f float_ops \<Rightarrow> 'f \<Rightarrow> 'f \<Rightarrow> 'f \<Rightarrow> int" where
  "HashPoint fl x y z =
     ftoint fl (fadd fl (fadd fl (fmul fl x (fconst fl 10001)) (fmul fl y (fconst fl 1000001)))
                        (fmul fl z (fconst fl 100000001)))"

section \<open>The shapes\<close>

text \<open>
  The type \<open>Nurbs\<close> is declared outside the file under verification; \<open>WriteMshD\<close> uses
  its fields \<open>gnd\<close>, \<open>p\<close>, \<open>n\<close>, \<open>b[d].T\<close> and its methods \<open>GetQ\<close>, \<open>GetQl\<close>,
  \<open>Elements\<close> and \<open>Enodes\<close>. They are taken as they are used: \<open>n\<close> holds the three
  control counts, \<open>p\<close> the three orders, \<open>bT d\<close> is the knot vector \<open>b[d].T\<close>, and a
  control point is the four numbers \<open>x[0]\<close>, \<open>x[1]\<close>, \<open>x[2]\<close>, \<open>x[3]\<close>. The
  counts and the number \<open>gnd\<close> of axes bound loops that start at 0 and are natural
  numbers; \<open>GetQ\<close> and \<open>GetQl\<close> answer at every index, and \<open>b\<close> has a knot vector for
  each of the \<open>gnd\<close> axes. The slices that \<open>Elements\<close> and \<open>Enodes\<close> return are lists.
\<close>

type_synonym 'f vec4 = "'f \<times> 'f \<times> 'f \<times> 'f"

record 'f Nurbs =
  gnd :: nat
  p :: "int \<times> int \<times> int"
  n :: "nat \<times> nat \<times> nat"
  bT :: "nat \<Rightarrow> 'f list"
  GetQ :: "nat \<Rightarrow> nat \<Rightarrow> nat \<Rightarrow> 'f vec4"
  GetQl :: "int \<Rightarrow> 'f vec4"
  Elements :: "int list list"
  Enodes :: "int list list"

definition hash_of :: "'f float_ops \<Rightarrow> 'f vec4 \<Rightarrow> int" where
  "hash_of fl x = (case x of (x0, x1, x2, x3) \<Rightarrow> HashPoint fl x0 x1 x2)"

section \<open>The document written by WriteMshD\<close>

text \<open>
  Each entry that \<open>WriteMshD\<close> prints into its buffer is kept as a record of the
  values that the format string receives.
\<close>

record 'f vert_line =
  vl_id :: nat
  vl_tag :: int
  vl_c :: "'f vec4"

record 'f nurbs_block =
  nb_id :: nat
  nb_gnd :: nat
  nb_ords :: "int \<times> int \<times> int"
  nb_knots :: "'f list list"
  nb_ctrls :: "nat list"

record cell_line =
  cl_id :: nat
  cl_tag :: int
  cl_nrb :: nat
  cl_part :: int
  cl_geo :: int
  cl_span :: "int list"
  cl_verts :: "nat list"

record 'f msh =
  m_verts :: "'f vert_line list"
  m_nurbss :: "'f nurbs_block list"
  m_cells :: "cell_line list"

subsection \<open>First sweep: the vertices\<close>

text \<open>
  The state of the first loop nest: the map \<open>verts\<close> from key to vertex id, the
  counter \<open>vid\<close> and the vertex entries printed so far.
\<close>

record 'f sweep =
  sw_verts :: "int \<rightharpoonup> nat"
  sw_vid :: nat
  sw_out :: "'f vert_line list"

definition vertex_tag :: "(int \<rightharpoonup> int) option \<Rightarrow> int \<Rightarrow> int" where
  "vertex_tag vtagged hsh =
     (case vtagged of
        None \<Rightarrow> 0
      | Some m \<Rightarrow> (case m hsh of Some val \<Rightarrow> val | None \<Rightarrow> 0))"

definition visit :: "'f float_ops \<Rightarrow> (int \<rightharpoonup> int) option \<Rightarrow> 'f vec4 \<Rightarrow> 'f sweep \<Rightarrow> 'f sweep" where
  "visit fl vtagged x s =
     (let hsh = hash_of fl x in
      case sw_verts s hsh of
        Some _ \<Rightarrow> s
      | None \<Rightarrow>
          \<lparr> sw_verts = (sw_verts s)(hsh \<mapsto> sw_vid s),
            sw_vid = sw_vid s + 1,
            sw_out = sw_out s @ [\<lparr> vl_id = sw_vid s, vl_tag = vertex_tag vtagged hsh, vl_c = x \<rparr>] \<rparr>)"

definition sweep_shape :: "'f float_ops \<Rightarrow> (int \<rightharpoonup> int) option \<Rightarrow> 'f Nurbs \<Rightarrow> 'f sweep \<Rightarrow> 'f sweep" where
  "sweep_shape fl vtagged ob =
     (case n ob of (n0, n1, n2) \<Rightarrow>
        fold (\<lambda>k. fold (\<lambda>j. fold (\<lambda>i. visit fl vtagged (GetQ ob i j k)) [0..<n0]) [0..<n1]) [0..<n2])"

definition sweep0 :: "'f sweep" where
  "sweep0 = \<lparr> sw_verts = Map.empty, sw_vid = 0, sw_out = [] \<rparr>"

definition first_sweep :: "'f float_ops \<Rightarrow> (int \<rightharpoonup> int) option \<Rightarrow> 'f Nurbs list \<Rightarrow> 'f sweep" where
  "first_sweep fl vtagged nurbss = fold (sweep_shape fl vtagged) nurbss sweep0"

subsection \<open>Second sweep: the shapes\<close>

text \<open>
  Indexing a Go map with a key it does not hold gives the zero value of the element
  type: \<open>verts[hsh]\<close> is \<open>0\<close> then.
\<close>

definition lookup_id :: "(int \<rightharpoonup> nat) \<Rightarrow> int \<Rightarrow> nat" where
  "lookup_id verts hsh = (case verts hsh of Some v \<Rightarrow> v | None \<Rightarrow> 0)"

definition ctrls_line :: "'f float_ops \<Rightarrow> (int \<rightharpoonup> nat) \<Rightarrow> 'f Nurbs \<Rightarrow> nat list" where
  "ctrls_line fl verts ob =
     (case n ob of (n0, n1, n2) \<Rightarrow>
        concat (map (\<lambda>k. concat (map (\<lambda>j. map (\<lambda>i. lookup_id verts (hash_of fl (GetQ ob i j k)))
                                              [0..<n0]) [0..<n1])) [0..<n2]))"

definition knots_lines :: "'f Nurbs \<Rightarrow> 'f list list" where
  "knots_lines ob = map (bT ob) [0..<gnd ob]"

definition nurbs_blocks :: "'f float_ops \<Rightarrow> (int \<rightharpoonup> nat) \<Rightarrow> 'f Nurbs list \<Rightarrow> 'f nurbs_block list" where
  "nurbs_blocks fl verts nurbss =
     map (\<lambda>(sid, ob). \<lparr> nb_id = sid, nb_gnd = gnd ob, nb_ords = p ob,
                        nb_knots = knots_lines ob, nb_ctrls = ctrls_line fl verts ob \<rparr>)
         (enumerate 0 nurbss)"

subsection \<open>Third sweep: the cells\<close>

text \<open>\<open>utl.Sf("%d_%d", sid, eid)\<close> for the two loop indices, which are not negative.\<close>

fun Sf_d :: "nat \<Rightarrow> string" where
  "Sf_d i = (if i < 10 then [''0123456789'' ! i] else Sf_d (i div 10) @ [''0123456789'' ! (i mod 10)])"

definition Sf_d_d :: "nat \<Rightarrow> nat \<Rightarrow> string" where
  "Sf_d_d sid eid = Sf_d sid @ ''_'' @ Sf_d eid"

definition cell_tag :: "(string \<rightharpoonup> int) option \<Rightarrow> nat \<Rightarrow> nat \<Rightarrow> int" where
  "cell_tag ctagged sid eid =
     (case ctagged of
        None \<Rightarrow> - 1
      | Some m \<Rightarrow> (case m (Sf_d_d sid eid) of Some val \<Rightarrow> val | None \<Rightarrow> - 1))"

text \<open>
  What can go wrong: a slice indexed out of its range (a run-time panic of Go), and
  the two panics that \<open>ReadMsh\<close> raises itself, with the file name and the cause.
\<close>

datatype json_error = SyntaxError | UnmarshalTypeError

datatype error =
    index_out_of_range
  | io_err1 string
  | io_err2 string json_error
  | collaborator_panic

definition cell_entry :: "'f float_ops \<Rightarrow> (int \<rightharpoonup> nat) \<Rightarrow> (string \<rightharpoonup> int) option \<Rightarrow> nat \<Rightarrow> 'f Nurbs
    \<Rightarrow> nat \<Rightarrow> nat \<Rightarrow> int list \<Rightarrow> cell_line" where
  "cell_entry fl verts ctagged sid ob cid eid e =
     \<lparr> cl_id = cid, cl_tag = cell_tag ctagged sid eid, cl_nrb = sid, cl_part = 0,
       cl_geo = NURBS_GEO, cl_span = e,
       cl_verts = map (\<lambda>l. lookup_id verts (hash_of fl (GetQl ob l))) (Enodes ob ! eid) \<rparr>"

text \<open>
  The loop over the elements of one shape. \<open>enodes[eid]\<close> panics when \<open>Enodes\<close>
  returned fewer rows than \<open>Elements\<close>; the file is then never written.
\<close>

fun cells_loop :: "'f float_ops \<Rightarrow> (int \<rightharpoonup> nat) \<Rightarrow> (string \<rightharpoonup> int) option \<Rightarrow> nat \<Rightarrow> 'f Nurbs
    \<Rightarrow> (nat \<times> int list) list \<Rightarrow> nat \<times> cell_line list \<Rightarrow> error + nat \<times> cell_line list" where
  "cells_loop fl verts ctagged sid ob [] st = Inr st"
| "cells_loop fl verts ctagged sid ob ((eid, e) # es) (cid, out) =
     (if eid < length (Enodes ob) then
        cells_loop fl verts ctagged sid ob es
          (cid + 1, out @ [cell_entry fl verts ctagged sid ob cid eid e])
      else Inl index_out_of_range)"

fun cells_sweep :: "'f float_ops \<Rightarrow> (int \<rightharpoonup> nat) \<Rightarrow> (string \<rightharpoonup> int) option
    \<Rightarrow> (nat \<times> 'f Nurbs) list \<Rightarrow> nat \<times> cell_line list \<Rightarrow> error + nat \<times> cell_line list" where
  "cells_sweep fl verts ctagged [] st = Inr st"
| "cells_sweep fl verts ctagged ((sid, ob) # rest) st =
     (case cells_loop fl verts ctagged sid ob (enumerate 0 (Elements ob)) st of
        Inl e \<Rightarrow> Inl e
      | Inr st' \<Rightarrow> cells_sweep fl verts ctagged rest st')"

subsection \<open>WriteMshD\<close>

text \<open>
  The three loop nests of \<open>WriteMshD\<close> in their order: the entries of \<open>verts\<close>, of
  \<open>nurbss\<close> and of \<open>cells\<close> that they print. The second and the third use the map
  \<open>verts\<close> that the first has built.
\<close>

definition WriteMshD_msh :: "'f float_ops \<Rightarrow> 'f Nurbs list \<Rightarrow> (int \<rightharpoonup> int) option
    \<Rightarrow> (string \<rightharpoonup> int) option \<Rightarrow> error + 'f msh" where
  "WriteMshD_msh fl nurbss vtagged ctagged =
     (let s = first_sweep fl vtagged nurbss;
          verts = sw_verts s
      in case cells_sweep fl verts ctagged (enumerate 0 nurbss) (0, []) of
           Inl e \<Rightarrow> Inl e
         | Inr (cid, cells) \<Rightarrow>
             Inr \<lparr> m_verts = sw_out s, m_nurbss = nurbs_blocks fl verts nurbss, m_cells = cells \<rparr>)"

text \<open>
  The text in the buffer is JSON. It is kept as the tree of its values: \<open>JInt i\<close> is a
  number printed with \<open>%d\<close>, \<open>JFlt x\<close> a number printed with \<open>%24.17e\<close>, which has
  enough digits to denote the \<open>float64\<close> value \<open>x\<close> itself when \<open>x\<close> is finite.
\<close>

datatype 'f json =
    JNull
  | JBool bool
  | JStr string
  | JInt int
  | JFlt 'f
  | JArr "'f json list"
  | JObj "(string \<times> 'f json) list"

definition vert_json :: "'f vert_line \<Rightarrow> 'f json" where
  "vert_json v =
     (case vl_c v of (x0, x1, x2, x3) \<Rightarrow>
        JObj [(''id'', JInt (int (vl_id v))), (''tag'', JInt (vl_tag v)),
              (''c'', JArr [JFlt x0, JFlt x1, JFlt x2, JFlt x3])])"

definition nurbs_json :: "'f nurbs_block \<Rightarrow> 'f json" where
  "nurbs_json b =
     (case nb_ords b of (p0, p1, p2) \<Rightarrow>
        JObj [(''id'', JInt (int (nb_id b))), (''gnd'', JInt (int (nb_gnd b))),
              (''ords'', JArr [JInt p0, JInt p1, JInt p2]),
              (''knots'', JArr (map (\<lambda>T. JArr (map JFlt T)) (nb_knots b))),
              (''ctrls'', JArr (map (\<lambda>c. JInt (int c)) (nb_ctrls b)))])"

definition cell_json :: "cell_line \<Rightarrow> 'f json" where
  "cell_json c =
     JObj [(''id'', JInt (int (cl_id c))), (''tag'', JInt (cl_tag c)), (''nrb'', JInt (int (cl_nrb c))),
           (''part'', JInt (cl_part c)), (''geo'', JInt (cl_geo c)),
           (''span'', JArr (map JInt (cl_span c))),
           (''verts'', JArr (map (\<lambda>v. JInt (int v)) (cl_verts c)))]"

definition msh_json :: "'f msh \<Rightarrow> 'f json" where
  "msh_json m =
     JObj [(''verts'', JArr (map vert_json (m_verts m))),
           (''nurbss'', JArr (map nurbs_json (m_nurbss m))),
           (''cells'', JArr (map cell_json (m_cells m)))]"

text \<open>
  \<open>WriteMshD\<close> hands the buffer to \<open>utl.WriteFileVD(dirout, fnk+".msh", &buf)\<close>: the
  result is the directory, the file name and the content to be written.
\<close>

definition WriteMshD :: "'f float_ops \<Rightarrow> string \<Rightarrow> string \<Rightarrow> 'f Nurbs list \<Rightarrow> (int \<rightharpoonup> int) option
    \<Rightarrow> (string \<rightharpoonup> int) option \<Rightarrow> error + string \<times> string \<times> 'f json" where
  "WriteMshD fl dirout fnk nurbss vtagged ctagged =
     (case WriteMshD_msh fl nurbss vtagged ctagged of
        Inl e \<Rightarrow> Inl e
      | Inr m \<Rightarrow> Inr (dirout, fnk @ ''.msh'', msh_json m))"

section \<open>The document read by ReadMsh\<close>

record 'f Vert =
  Vert_Id :: int
  Vert_Tag :: int
  Vert_C :: "'f list"

record 'f NurbsD =
  NurbsD_Id :: int
  NurbsD_Gnd :: int
  NurbsD_Ords :: "int list"
  NurbsD_Knots :: "'f list list"
  NurbsD_Ctrls :: "int list"

record 'f Data =
  Verts :: "'f Vert list"
  Nurbss :: "'f NurbsD list"

subsection \<open>json.Unmarshal into Data\<close>

text \<open>
  \<open>json.Unmarshal\<close> belongs to Go's standard library. What it does for the three
  struct types above is written out here from its documentation:
  \<^item> text that is not JSON is a syntax error;
  \<^item> a member of an object is stored into the field whose name equals the key up to
    the case of the letters, the members being taken in the order of the text; a key
    that names no field is skipped; a field that no member names keeps its value,
    which is the zero value in \<open>ReadMsh\<close>;
  \<^item> \<open>null\<close> leaves a number or a struct as it is and makes a slice empty;
  \<^item> a number is stored into an \<open>int\<close> when it is written as an integer and into a
    \<open>float64\<close> in either form; an array is stored into a slice element by element;
    any other combination is an \<open>UnmarshalTypeError\<close>.
  Numbers outside the range of \<open>int\<close> or \<open>float64\<close>, which are errors as well, are
  not among the documents of this model.
\<close>

text \<open>The content of a file: text that is not JSON, or the JSON value that the text denotes.\<close>

datatype 'f bytes = NotJSON | JSONText "'f json"

fun traverse :: "('a \<Rightarrow> 'e + 'b) \<Rightarrow> 'a list \<Rightarrow> 'e + 'b list" where
  "traverse f [] = Inr []"
| "traverse f (x # xs) =
     (case f x of
        Inl e \<Rightarrow> Inl e
      | Inr y \<Rightarrow> (case traverse f xs of Inl e \<Rightarrow> Inl e | Inr ys \<Rightarrow> Inr (y # ys)))"

text \<open>
  Keys are compared after case folding. Besides the letters of ASCII, the fold sets of
  \<open>k\<close> and \<open>s\<close> hold the Kelvin sign (bytes E2 84 AA) and the long s (bytes C5 BF).
\<close>

definition lower :: "char \<Rightarrow> char" where
  "lower c =
     (case map_of (zip ''ABCDEFGHIJKLMNOPQRSTUVWXYZ'' ''abcdefghijklmnopqrstuvwxyz'') c of
        Some d \<Rightarrow> d
      | None \<Rightarrow> c)"

fun fold_key :: "string \<Rightarrow> string" where
  "fold_key (a # b # c # cs) =
     (if [a, b, c] = [CHR 0xE2, CHR 0x84, CHR 0xAA] then CHR ''k'' # fold_key cs
      else if [a, b] = [CHR 0xC5, CHR 0xBF] then CHR ''s'' # fold_key (c # cs)
      else lower a # fold_key (b # c # cs))"
| "fold_key [a, b] =
     (if [a, b] = [CHR 0xC5, CHR 0xBF] then ''s'' else [lower a, lower b])"
| "fold_key [a] = [lower a]"
| "fold_key [] = []"

definition matches :: "string \<Rightarrow> string \<Rightarrow> bool" where
  "matches field key = (fold_key key = fold_key field)"

fun dec_int :: "int \<Rightarrow> 'f json \<Rightarrow> json_error + int" where
  "dec_int cur JNull = Inr cur"
| "dec_int cur (JInt i) = Inr i"
| "dec_int cur _ = Inl UnmarshalTypeError"

fun dec_float :: "'f float_ops \<Rightarrow> 'f \<Rightarrow> 'f json \<Rightarrow> json_error + 'f" where
  "dec_float fl cur JNull = Inr cur"
| "dec_float fl cur (JInt i) = Inr (fconst fl i)"
| "dec_float fl cur (JFlt x) = Inr x"
| "dec_float fl cur _ = Inl UnmarshalTypeError"

fun dec_slice :: "('f json \<Rightarrow> json_error + 'a) \<Rightarrow> 'f json \<Rightarrow> json_error + 'a list" where
  "dec_slice f JNull = Inr []"
| "dec_slice f (JArr xs) = traverse f xs"
| "dec_slice f _ = Inl UnmarshalTypeError"

fun dec_members :: "(string \<times> 'f json \<Rightarrow> 's \<Rightarrow> json_error + 's) \<Rightarrow> (string \<times> 'f json) list \<Rightarrow> 's
    \<Rightarrow> json_error + 's" where
  "dec_members f [] s = Inr s"
| "dec_members f (m # ms) s =
     (case f m s of Inl e \<Rightarrow> Inl e | Inr s' \<Rightarrow> dec_members f ms s')"

fun dec_struct :: "(string \<times> 'f json \<Rightarrow> 's \<Rightarrow> json_error + 's) \<Rightarrow> 's \<Rightarrow> 'f json \<Rightarrow> json_error + 's" where
  "dec_struct f cur JNull = Inr cur"
| "dec_struct f cur (JObj ms) = dec_members f ms cur"
| "dec_struct f cur _ = Inl UnmarshalTypeError"

definition dec_ints :: "'f json \<Rightarrow> json_error + int list" where
  "dec_ints = dec_slice (dec_int 0)"

definition dec_floats :: "'f float_ops \<Rightarrow> 'f json \<Rightarrow> json_error + 'f list" where
  "dec_floats fl = dec_slice (dec_float fl (fconst fl 0))"

definition Vert0 :: "'f Vert" where
  "Vert0 = \<lparr> Vert_Id = 0, Vert_Tag = 0, Vert_C = [] \<rparr>"

definition Vert_member :: "'f float_ops \<Rightarrow> string \<times> 'f json \<Rightarrow> 'f Vert \<Rightarrow> json_error + 'f Vert" where
  "Vert_member fl m v =
     (case m of (k, j) \<Rightarrow>
        if matches ''Id'' k then map_sum id (\<lambda>i. v\<lparr> Vert_Id := i \<rparr>) (dec_int (Vert_Id v) j)
        else if matches ''Tag'' k then map_sum id (\<lambda>i. v\<lparr> Vert_Tag := i \<rparr>) (dec_int (Vert_Tag v) j)
        else if matches ''C'' k then map_sum id (\<lambda>c. v\<lparr> Vert_C := c \<rparr>) (dec_floats fl j)
        else Inr v)"

definition NurbsD0 :: "'f NurbsD" where
  "NurbsD0 = \<lparr> NurbsD_Id = 0, NurbsD_Gnd = 0, NurbsD_Ords = [], NurbsD_Knots = [], NurbsD_Ctrls = [] \<rparr>"

definition NurbsD_member :: "'f float_ops \<Rightarrow> string \<times> 'f json \<Rightarrow> 'f NurbsD \<Rightarrow> json_error + 'f NurbsD" where
  "NurbsD_member fl m v =
     (case m of (k, j) \<Rightarrow>
        if matches ''Id'' k then map_sum id (\<lambda>i. v\<lparr> NurbsD_Id := i \<rparr>) (dec_int (NurbsD_Id v) j)
        else if matches ''Gnd'' k then map_sum id (\<lambda>i. v\<lparr> NurbsD_Gnd := i \<rparr>) (dec_int (NurbsD_Gnd v) j)
        else if matches ''Ords'' k then map_sum id (\<lambda>x. v\<lparr> NurbsD_Ords := x \<rparr>) (dec_ints j)
        else if matches ''Knots'' k then
          map_sum id (\<lambda>x. v\<lparr> NurbsD_Knots := x \<rparr>) (dec_slice (dec_floats fl) j)
        else if matches ''Ctrls'' k then map_sum id (\<lambda>x. v\<lparr> NurbsD_Ctrls := x \<rparr>) (dec_ints j)
        else Inr v)"

definition Data0 :: "'f Data" where
  "Data0 = \<lparr> Verts = [], Nurbss = [] \<rparr>"

definition Data_member :: "'f float_ops \<Rightarrow> string \<times> 'f json \<Rightarrow> 'f Data \<Rightarrow> json_error + 'f Data" where
  "Data_member fl m d =
     (case m of (k, j) \<Rightarrow>
        if matches ''Verts'' k then
          map_sum id (\<lambda>x. d\<lparr> Verts := x \<rparr>) (dec_slice (dec_struct (Vert_member fl) Vert0) j)
        else if matches ''Nurbss'' k then
          map_sum id (\<lambda>x. d\<lparr> Nurbss := x \<rparr>) (dec_slice (dec_struct (NurbsD_member fl) NurbsD0) j)
        else Inr d)"

definition Unmarshal :: "'f float_ops \<Rightarrow> 'f bytes \<Rightarrow> json_error + 'f Data" where
  "Unmarshal fl buf =
     (case buf of
        NotJSON \<Rightarrow> Inl SyntaxError
      | JSONText j \<Rightarrow> dec_struct (Data_member fl) Data0 j)"

subsection \<open>ReadMsh\<close>

text \<open>
  The two methods of \<open>Nurbs\<close> that \<open>ReadMsh\<close> calls are parameters: \<open>Init\<close> stands
  for \<open>new(Nurbs)\<close> followed by \<open>Init(gnd, ords, knots)\<close>, \<open>SetControl\<close> for
  \<open>SetControl(verts, ctrls)\<close>. Either may panic.
\<close>

record ('f, 'o) collaborator =
  Init :: "int \<Rightarrow> int list \<Rightarrow> 'f list list \<Rightarrow> error + 'o"
  SetControl :: "'o \<Rightarrow> 'f list list \<Rightarrow> int list \<Rightarrow> error + 'o"

definition at_index :: "'a list \<Rightarrow> nat \<Rightarrow> error + 'a" where
  "at_index xs i = (if i < length xs then Inr (xs ! i) else Inl index_out_of_range)"

text \<open>The inner loop \<open>for j := 0; j < 4; j++ { verts[i][j] = dat.Verts[i].C[j] }\<close>.\<close>

definition vert_row :: "'f Vert \<Rightarrow> error + 'f list" where
  "vert_row v = traverse (at_index (Vert_C v)) [0..<4]"

definition ReadMsh_verts :: "'f Vert list \<Rightarrow> error + 'f list list" where
  "ReadMsh_verts vs = traverse vert_row vs"

definition ReadMsh_nurbss :: "('f, 'o) collaborator \<Rightarrow> 'f list list \<Rightarrow> 'f NurbsD list \<Rightarrow> error + 'o list" where
  "ReadMsh_nurbss cb verts ds =
     traverse (\<lambda>v. case Init cb (NurbsD_Gnd v) (NurbsD_Ords v) (NurbsD_Knots v) of
                     Inl e \<Rightarrow> Inl e
                   | Inr ob \<Rightarrow> SetControl cb ob verts (NurbsD_Ctrls v)) ds"

text \<open>\<open>ReadFile fn\<close> is \<open>None\<close> when \<open>utl.ReadFile\<close> returns an error.\<close>

definition ReadMsh :: "'f float_ops \<Rightarrow> ('f, 'o) collaborator \<Rightarrow> (string \<Rightarrow> 'f bytes option) \<Rightarrow> string
    \<Rightarrow> error + 'o list" where
  "ReadMsh fl cb ReadFile fnk =
     (let fn = fnk @ ''.msh'' in
      case ReadFile fn of
        None \<Rightarrow> Inl (io_err1 fn)
      | Some buf \<Rightarrow>
          (case Unmarshal fl buf of
             Inl err \<Rightarrow> Inl (io_err2 fn err)
           | Inr dat \<Rightarrow>
               (case ReadMsh_verts (Verts dat) of
                  Inl e \<Rightarrow> Inl e
                | Inr verts \<Rightarrow> ReadMsh_nurbss cb verts (Nurbss dat))))"

section \<open>Notions used to state the properties\<close>

text \<open>
  The control points of a shape as a list whose entry \<open>i + n0 * j + n0 * n1 * k\<close> is
  the point at lattice index \<open>(i, j, k)\<close>: the index along axis 0 varies fastest.
\<close>

definition lattice_points :: "'f Nurbs \<Rightarrow> 'f vec4 list" where
  "lattice_points ob =
     (case n ob of (n0, n1, n2) \<Rightarrow>
        concat (map (\<lambda>k. concat (map (\<lambda>j. map (\<lambda>i. GetQ ob i j k) [0..<n0]) [0..<n1])) [0..<n2]))"

definition all_points :: "'f Nurbs list \<Rightarrow> 'f vec4 list" where
  "all_points nurbss = concat (map lattice_points nurbss)"

text \<open>
  The points of a list whose key is new: not among \<open>seen\<close> and not the key of an
  earlier point of the list.
\<close>

fun discover :: "'f float_ops \<Rightarrow> int list \<Rightarrow> 'f vec4 list \<Rightarrow> 'f vec4 list" where
  "discover fl seen [] = []"
| "discover fl seen (x # xs) =
     (if hash_of fl x \<in> set seen then discover fl seen xs
      else x # discover fl (hash_of fl x # seen) xs)"

definition vert_lines :: "'f float_ops \<Rightarrow> (int \<rightharpoonup> int) option \<Rightarrow> nat \<Rightarrow> 'f vec4 list \<Rightarrow> 'f vert_line list" where
  "vert_lines fl vtagged i xs =
     map (\<lambda>(i, x). \<lparr> vl_id = i, vl_tag = vertex_tag vtagged (hash_of fl x), vl_c = x \<rparr>) (enumerate i xs)"

text \<open>The number of cells printed before those of shape \<open>s\<close>.\<close>

definition cells_before :: "'f Nurbs list \<Rightarrow> nat \<Rightarrow> nat" where
  "cells_before nurbss s = sum_list (map (\<lambda>ob. length (Elements ob)) (take s nurbss))"

text \<open>
  The cells of one shape and of a list of shapes as functions of the counter at which
  they start.
\<close>

definition shape_cells :: "'f float_ops \<Rightarrow> (int \<rightharpoonup> nat) \<Rightarrow> (string \<rightharpoonup> int) option \<Rightarrow> nat \<Rightarrow> 'f Nurbs
    \<Rightarrow> nat \<Rightarrow> cell_line list" where
  "shape_cells fl verts ctagged sid ob cid =
     map (\<lambda>(c, eid, e). cell_entry fl verts ctagged sid ob c eid e)
         (enumerate cid (enumerate 0 (Elements ob)))"

fun all_cells :: "'f float_ops \<Rightarrow> (int \<rightharpoonup> nat) \<Rightarrow> (string \<rightharpoonup> int) option \<Rightarrow> nat \<Rightarrow> nat
    \<Rightarrow> 'f Nurbs list \<Rightarrow> cell_line list" where
  "all_cells fl verts ctagged sid cid [] = []"
| "all_cells fl verts ctagged sid cid (ob # obs) =
     shape_cells fl verts ctagged sid ob cid
       @ all_cells fl verts ctagged (Suc sid) (cid + length (Elements ob)) obs"

section \<open>Concrete shapes\<close>

text \<open>
  An arithmetic without rounding, on the reals. On values whose products and sums
  \<open>float64\<close> represents exactly it agrees with the arithmetic of the machine; the
  conversion to \<open>int\<close> truncates towards zero.
\<close>

definition exact_fl :: "real float_ops" where
  "exact_fl = \<lparr> fmul = (*), fadd = (+), fconst = of_int,
                ftoint = (\<lambda>x. if 0 \<le> x then \<lfloor>x\<rfloor> else \<lceil>x\<rceil>) \<rparr>"

text \<open>
  A curve with two control points and a surface with four, which share the points
  \<open>(0, 0, 0)\<close> and \<open>(1, 0, 0)\<close>; a table that tags the key of \<open>(1, 0, 0)\<close> and a
  table that tags element 0 of shape 1.
\<close>

definition ex_curve :: "real Nurbs" where
  "ex_curve =
     \<lparr> gnd = 1, p = (1, 0, 0), n = (2, 1, 1), bT = (\<lambda>d. [0, 0, 1, 1]),
       GetQ = (\<lambda>i j k. (real i, 0, 0, 1)),
       GetQl = (\<lambda>l. (real_of_int l, 0, 0, 1)),
       Elements = [[1, 2]], Enodes = [[0, 1]] \<rparr>"

definition ex_surf :: "real Nurbs" where
  "ex_surf =
     \<lparr> gnd = 2, p = (1, 1, 0), n = (2, 2, 1), bT = (\<lambda>d. [0, 0, 1, 1]),
       GetQ = (\<lambda>i j k. (real i, real j, 0, 1)),
       GetQl = (\<lambda>l. (real_of_int (l mod 2), real_of_int (l div 2), 0, 1)),
       Elements = [[1, 2, 1, 2]], Enodes = [[0, 1, 2, 3]] \<rparr>"

definition ex_vtagged :: "(int \<rightharpoonup> int) option" where
  "ex_vtagged = Some [10001 \<mapsto> 7]"

definition ex_ctagged :: "(string \<rightharpoonup> int) option" where
  "ex_ctagged = Some [''1_0'' \<mapsto> 5]"

definition ex_msh :: "real msh" where
  "ex_msh =
     \<lparr> m_verts =
         [\<lparr> vl_id = 0, vl_tag = 0, vl_c = (0, 0, 0, 1) \<rparr>,
          \<lparr> vl_id = 1, vl_tag = 7, vl_c = (1, 0, 0, 1) \<rparr>,
          \<lparr> vl_id = 2, vl_tag = 0, vl_c = (0, 1, 0, 1) \<rparr>,
          \<lparr> vl_id = 3, vl_tag = 0, vl_c = (1, 1, 0, 1) \<rparr>],
       m_nurbss =
         [\<lparr> nb_id = 0, nb_gnd = 1, nb_ords = (1, 0, 0), nb_knots = [[0, 0, 1, 1]],
            nb_ctrls = [0, 1] \<rparr>,
          \<lparr> nb_id = 1, nb_gnd = 2, nb_ords = (1, 1, 0), nb_knots = [[0, 0, 1, 1], [0, 0, 1, 1]],
            nb_ctrls = [0, 1, 2, 3] \<rparr>],
       m_cells =
         [\<lparr> cl_id = 0, cl_tag = - 1, cl_nrb = 0, cl_part = 0, cl_geo = 18, cl_span = [1, 2],
            cl_verts = [0, 1] \<rparr>,
          \<lparr> cl_id = 1, cl_tag = 5, cl_nrb = 1, cl_part = 0, cl_geo = 18, cl_span = [1, 2, 1, 2],
            cl_verts = [0, 1, 2, 3] \<rparr>] \<rparr>"

section \<open>The reconstructed objects\<close>

text \<open>
  Modelled from the spec: the construction interface of \<open>Nurbs\<close>, whose code is not in
  the file under verification. By section 6 of the specification,
  \<open>Init(dim, orders, knots)\<close> constructs a shape from dimension, per-axis order and
  per-axis knot vector, and \<open>SetControl(flatVertexTable, controlIds)\<close> binds a control
  lattice by global ids into a flat table. A reconstructed object is kept as these
  values: its dimension, orders, knot vectors and the coordinates of its control points
  in the order of the ids. An id that is not an index of the table is an index out of
  range.
\<close>

record 'f shape =
  sh_dim :: int
  sh_orders :: "int list"
  sh_knots :: "'f list list"
  sh_control :: "'f list list"

text \<open>
  Modelled from the spec: \<open>Init(dim, orders, knots)\<close>, which constructs a shape from
  dimension, per-axis order and per-axis knot vector.
\<close>

definition spec_Init :: "int \<Rightarrow> int list \<Rightarrow> 'f list list \<Rightarrow> error + 'f shape" where
  "spec_Init dm orders knots =
     Inr \<lparr> sh_dim = dm, sh_orders = orders, sh_knots = knots, sh_control = [] \<rparr>"

text \<open>
  Modelled from the spec: \<open>SetControl(flatVertexTable, controlIds)\<close>, which binds a
  control lattice by global ids into a flat table.
\<close>

definition spec_SetControl :: "'f shape \<Rightarrow> 'f list list \<Rightarrow> int list \<Rightarrow> error + 'f shape" where
  "spec_SetControl ob verts ctrls =
     (case traverse (\<lambda>c. if 0 \<le> c then at_index verts (nat c) else Inl index_out_of_range) ctrls of
        Inl e \<Rightarrow> Inl e
      | Inr rows \<Rightarrow> Inr (ob\<lparr> sh_control := rows \<rparr>))"

definition spec_nurbs :: "('f, 'f shape) collaborator" where
  "spec_nurbs = \<lparr> Init = spec_Init, SetControl = spec_SetControl \<rparr>"






section \<open>Concrete documents\<close>


text \<open>A document without the member \<open>nurbss\<close>.\<close>

definition no_shapes_doc :: "real json" where
  "no_shapes_doc =
     JObj [(''verts'', JArr [JObj [(''id'', JInt 0), (''tag'', JInt 0),
                                   (''c'', JArr [JFlt 0, JFlt 0, JFlt 0, JFlt 1])]])]"

text \<open>A document whose vertex ids are 2 and 0, and a curve on the control ids 0 and 1.\<close>

definition gap_doc :: "real json" where
  "gap_doc =
     JObj [(''verts'',
            JArr [JObj [(''id'', JInt 2), (''tag'', JInt 0), (''c'', JArr [JFlt 1, JFlt 1, JFlt 1, JFlt 1])],
                  JObj [(''id'', JInt 0), (''tag'', JInt 0), (''c'', JArr [JFlt 0, JFlt 0, JFlt 0, JFlt 1])]]),
           (''nurbss'',
            JArr [JObj [(''id'', JInt 0), (''gnd'', JInt 1), (''ords'', JArr [JInt 1, JInt 0, JInt 0]),
                        (''knots'', JArr [JArr [JFlt 0, JFlt 0, JFlt 1, JFlt 1]]),
                        (''ctrls'', JArr [JInt 0, JInt 1])]])]"

text \<open>A document with a vertex of three coordinates.\<close>

definition short_doc :: "real json" where
  "short_doc =
     JObj [(''verts'', JArr [JObj [(''id'', JInt 0), (''tag'', JInt 0),
                                   (''c'', JArr [JFlt 0, JFlt 0, JFlt 1])]]),
           (''nurbss'', JArr [])]"

section \<open>Properties of the first sweep\<close>

lemma fold_concat: "fold f (concat xss) = fold (fold f) xss"
  by (induction xss) auto

lemma sweep_shape_fold: "sweep_shape fl vt ob = fold (visit fl vt) (lattice_points ob)"
  by (simp add: sweep_shape_def lattice_points_def fold_concat fold_map comp_def split: prod.splits)

lemma first_sweep_fold: "first_sweep fl vt nurbss = fold (visit fl vt) (all_points nurbss) sweep0"
proof -
  have "sweep_shape fl vt = (\<lambda>ob. fold (visit fl vt) (lattice_points ob))"
    by (rule ext) (simp add: sweep_shape_fold)
  then show ?thesis
    by (simp add: first_sweep_def all_points_def fold_concat fold_map comp_def)
qed

lemma ctrls_line_map: "ctrls_line fl M ob = map (\<lambda>x. lookup_id M (hash_of fl x)) (lattice_points ob)"
  by (simp add: ctrls_line_def lattice_points_def map_concat comp_def split: prod.splits)



lemma discover_keys: "set (map (hash_of fl) (discover fl seen xs)) = hash_of fl ` set xs - set seen"
  by (induction xs arbitrary: seen) auto

lemma discover_keys_notin: "x \<in> set (discover fl seen xs) \<Longrightarrow> hash_of fl x \<notin> set seen"
  using discover_keys [of fl seen xs] by auto

lemma discover_distinct: "distinct (map (hash_of fl) (discover fl seen xs))"
  by (induction xs arbitrary: seen) (auto dest: discover_keys_notin)

lemma fold_visit_out:
  "dom (sw_verts s) = set seen \<Longrightarrow>
   sw_out (fold (visit fl vt) xs s) = sw_out s @ vert_lines fl vt (sw_vid s) (discover fl seen xs)"
proof (induction xs arbitrary: s seen)
  case Nil
  then show ?case by (simp add: vert_lines_def)
next
  case (Cons x xs)
  show ?case
  proof (cases "hash_of fl x \<in> set seen")
    case True
    then obtain i where "sw_verts s (hash_of fl x) = Some i"
      using Cons.prems by auto
    then have "visit fl vt x s = s" by (simp add: visit_def Let_def)
    with Cons True show ?thesis by simp
  next
    case False
    then have none: "sw_verts s (hash_of fl x) = None"
      using Cons.prems by auto
    let ?s = "visit fl vt x s"
    have d: "dom (sw_verts ?s) = set (hash_of fl x # seen)"
      using none Cons.prems by (simp add: visit_def Let_def)
    have v: "sw_vid ?s = Suc (sw_vid s)" using none by (simp add: visit_def Let_def)
    have out: "sw_out ?s = sw_out s @ [\<lparr> vl_id = sw_vid s, vl_tag = vertex_tag vt (hash_of fl x), vl_c = x \<rparr>]"
      using none by (simp add: visit_def Let_def)
    show ?thesis
      using Cons.IH [OF d] False by (simp add: v out vert_lines_def)
  qed
qed

lemma fold_visit_verts:
  "dom (sw_verts s) = set seen \<Longrightarrow>
   sw_verts (fold (visit fl vt) xs s) =
     sw_verts s ++ map_of (zip (map (hash_of fl) (discover fl seen xs))
                               [sw_vid s ..< sw_vid s + length (discover fl seen xs)])"
proof (induction xs arbitrary: s seen)
  case Nil
  then show ?case by simp
next
  case (Cons x xs)
  show ?case
  proof (cases "hash_of fl x \<in> set seen")
    case True
    then obtain i where "sw_verts s (hash_of fl x) = Some i"
      using Cons.prems by auto
    then have "visit fl vt x s = s" by (simp add: visit_def Let_def)
    with Cons True show ?thesis by simp
  next
    case False
    then have none: "sw_verts s (hash_of fl x) = None"
      using Cons.prems by auto
    let ?s = "visit fl vt x s"
    let ?h = "hash_of fl x"
    let ?ds = "discover fl (?h # seen) xs"
    have d: "dom (sw_verts ?s) = set (?h # seen)"
      using none Cons.prems by (simp add: visit_def Let_def)
    have v: "sw_vid ?s = Suc (sw_vid s)" using none by (simp add: visit_def Let_def)
    have m: "sw_verts ?s = (sw_verts s)(?h \<mapsto> sw_vid s)" using none by (simp add: visit_def Let_def)
    have notin: "?h \<notin> set (map (hash_of fl) ?ds)"
      using discover_keys [of fl "?h # seen" xs] by auto
    let ?ks = "map (hash_of fl) ?ds"
    let ?vs = "[Suc (sw_vid s) ..< Suc (sw_vid s) + length ?ds]"
    have len: "length ?ks = length ?vs"
      by (simp only: length_map length_upt add_diff_cancel_left')
    have notdom: "map_of (zip ?ks ?vs) ?h = None"
      using map_of_zip_is_None [OF len, of ?h] notin by blast
    have ih: "sw_verts (fold (visit fl vt) xs ?s) = (sw_verts s)(?h \<mapsto> sw_vid s) ++ map_of (zip ?ks ?vs)"
      using Cons.IH [OF d] unfolding v m .
    have disc: "discover fl seen (x # xs) = x # ?ds"
      using False by simp
    have upt: "[sw_vid s ..< sw_vid s + length (x # ?ds)] = sw_vid s # ?vs"
      by (simp add: upt_rec)
    have "sw_verts (fold (visit fl vt) (x # xs) s) = (sw_verts s ++ map_of (zip ?ks ?vs))(?h \<mapsto> sw_vid s)"
      using ih notdom by (simp add: map_add_upd_left domIff)
    also have "\<dots> = sw_verts s ++ map_of (zip (?h # ?ks) (sw_vid s # ?vs))"
      by simp
    finally show ?thesis
      by (simp only: disc upt list.map)
  qed
qed


lemma first_sweep_out:
  "sw_out (first_sweep fl vt nurbss) = vert_lines fl vt 0 (discover fl [] (all_points nurbss))"
  using fold_visit_out [of sweep0 "[]" fl vt "all_points nurbss"]
  by (simp add: first_sweep_fold sweep0_def)

lemma first_sweep_verts:
  "sw_verts (first_sweep fl vt nurbss) =
     map_of (zip (map (hash_of fl) (discover fl [] (all_points nurbss)))
                 [0 ..< length (discover fl [] (all_points nurbss))])"
  using fold_visit_verts [of sweep0 "[]" fl vt "all_points nurbss"]
  by (simp add: first_sweep_fold sweep0_def)

lemma map_of_zip_upt_iff:
  assumes "distinct ks"
  shows "map_of (zip ks [0 ..< length ks]) k = Some i \<longleftrightarrow> i < length ks \<and> ks ! i = k"
proof
  assume "map_of (zip ks [0 ..< length ks]) k = Some i"
  then have "(k, i) \<in> set (zip ks [0 ..< length ks])"
    by (rule map_of_SomeD)
  then obtain j where "j < length ks" "ks ! j = k" "[0 ..< length ks] ! j = i"
    by (auto simp: in_set_zip)
  then show "i < length ks \<and> ks ! i = k" by simp
next
  assume a: "i < length ks \<and> ks ! i = k"
  have "map_of (zip ks [0 ..< length ks]) (ks ! i) = Some ([0 ..< length ks] ! i)"
    by (rule map_of_zip_nth) (use a assms in simp_all)
  with a show "map_of (zip ks [0 ..< length ks]) k = Some i" by simp
qed

lemma first_sweep_verts_iff:
  "sw_verts (first_sweep fl vt nurbss) k = Some i \<longleftrightarrow>
     i < length (discover fl [] (all_points nurbss)) \<and>
     hash_of fl (discover fl [] (all_points nurbss) ! i) = k"
  using map_of_zip_upt_iff [OF discover_distinct, of fl "[]" "all_points nurbss" k i]
  by (auto simp: first_sweep_verts)

lemma first_sweep_inserted:
  assumes "x \<in> set (all_points nurbss)"
  shows "\<exists>i. sw_verts (first_sweep fl vt nurbss) (hash_of fl x) = Some i"
proof -
  have "hash_of fl x \<in> set (map (hash_of fl) (discover fl [] (all_points nurbss)))"
    using assms discover_keys [of fl "[]" "all_points nurbss"] by auto
  then obtain i where "i < length (discover fl [] (all_points nurbss))"
      "hash_of fl (discover fl [] (all_points nurbss) ! i) = hash_of fl x"
    by (auto simp: in_set_conv_nth)
  then show ?thesis
    using first_sweep_verts_iff [of fl vt nurbss "hash_of fl x" i] by blast
qed

lemma lattice_in_all_points:
  "ob \<in> set nurbss \<Longrightarrow> x \<in> set (lattice_points ob) \<Longrightarrow> x \<in> set (all_points nurbss)"
  by (auto simp: all_points_def)

lemma nth_concat_uniform:
  assumes "\<And>b. b < m \<Longrightarrow> length (f b) = len" and "a < len" and "b < m"
  shows "concat (map f [0..<m]) ! (a + len * b) = f b ! a"
  using assms
proof (induction m)
  case 0
  then show ?case by simp
next
  case (Suc m)
  have L: "length (concat (map f [0..<m])) = len * m"
    using Suc.prems(1) by (induction m) auto
  show ?case
  proof (cases "b < m")
    case True
    then have "Suc b \<le> m" by simp
    then have "len * Suc b \<le> len * m" by (rule mult_le_mono2)
    then have "a + len * b < len * m" using Suc.prems(2) by simp
    then show ?thesis
      using Suc.IH [OF _ Suc.prems(2) True] Suc.prems(1) L by (simp add: nth_append)
  next
    case False
    then have "b = m" using Suc.prems(3) by simp
    then show ?thesis using L Suc.prems by (simp add: nth_append)
  qed
qed

lemma length_concat_uniform:
  "(\<And>b. b < m \<Longrightarrow> length (f b) = len) \<Longrightarrow> length (concat (map f [0..<m])) = len * m"
  by (induction m) auto

lemma length_lattice_points:
  "n ob = (n0, n1, n2) \<Longrightarrow> length (lattice_points ob) = n0 * n1 * n2"
  by (simp add: lattice_points_def length_concat_uniform [where len = "n0 * n1"]
                length_concat_uniform [where len = n0])

lemma nth_lattice_points:
  assumes "n ob = (n0, n1, n2)" "i < n0" "j < n1" "k < n2"
  shows "lattice_points ob ! (i + n0 * j + n0 * n1 * k) = GetQ ob i j k"
proof -
  let ?row = "\<lambda>k j. map (\<lambda>i. GetQ ob i j k) [0..<n0]"
  let ?plane = "\<lambda>k. concat (map (?row k) [0..<n1])"
  have lp: "\<And>k. length (?plane k) = n0 * n1"
    by (simp add: length_concat_uniform [where len = n0])
  have "i + n0 * j < n0 * n1"
  proof -
    have "Suc j \<le> n1" using assms(3) by simp
    then have "n0 * Suc j \<le> n0 * n1" by (rule mult_le_mono2)
    then show ?thesis using assms(2) by simp
  qed
  then have "concat (map ?plane [0..<n2]) ! ((i + n0 * j) + (n0 * n1) * k) = ?plane k ! (i + n0 * j)"
    using lp assms(4) by (intro nth_concat_uniform) auto
  also have "\<dots> = ?row k j ! i"
    using assms(2,3) by (intro nth_concat_uniform) auto
  also have "\<dots> = GetQ ob i j k"
    using assms(2) by simp
  finally show ?thesis
    using assms(1) by (simp add: lattice_points_def)
qed

section \<open>Properties of the third sweep\<close>

lemma cells_loop_Inr:
  "cells_loop fl M ct sid ob es (cid, out) = Inr (cid', out') \<Longrightarrow>
   cid' = cid + length es \<and>
   out' = out @ map (\<lambda>(c, eid, e). cell_entry fl M ct sid ob c eid e) (enumerate cid es)"
proof (induction es arbitrary: cid out)
  case Nil
  then show ?case by simp
next
  case (Cons a es)
  obtain eid e where a: "a = (eid, e)" by (cases a)
  from Cons.prems have ok: "eid < length (Enodes ob)"
    by (simp add: a split: if_splits)
  with Cons.prems have
    "cells_loop fl M ct sid ob es (cid + 1, out @ [cell_entry fl M ct sid ob cid eid e]) = Inr (cid', out')"
    by (simp add: a)
  from Cons.IH [OF this] show ?case by (simp add: a)
qed


lemma cells_sweep_Inr:
  "cells_sweep fl M ct (enumerate k obs) (cid, out) = Inr (cid', out') \<Longrightarrow>
   cid' = cid + sum_list (map (\<lambda>ob. length (Elements ob)) obs) \<and>
   out' = out @ all_cells fl M ct k cid obs"
proof (induction obs arbitrary: k cid out)
  case Nil
  then show ?case by simp
next
  case (Cons ob obs)
  from Cons.prems obtain c1 o1 where
    1: "cells_loop fl M ct k ob (enumerate 0 (Elements ob)) (cid, out) = Inr (c1, o1)" and
    2: "cells_sweep fl M ct (enumerate (Suc k) obs) (c1, o1) = Inr (cid', out')"
    by (auto split: sum.splits)
  from cells_loop_Inr [OF 1] have
    c1: "c1 = cid + length (Elements ob)" and o1: "o1 = out @ shape_cells fl M ct k ob cid"
    by (simp_all add: shape_cells_def)
  from Cons.IH [OF 2] show ?case
    by (simp add: c1 o1)
qed


lemma length_shape_cells: "length (shape_cells fl M ct sid ob cid) = length (Elements ob)"
  by (simp add: shape_cells_def)

lemma nth_shape_cells:
  "eid < length (Elements ob) \<Longrightarrow>
   shape_cells fl M ct sid ob cid ! eid = cell_entry fl M ct sid ob (cid + eid) eid (Elements ob ! eid)"
  by (simp add: shape_cells_def nth_enumerate_eq)

lemma ids_shape_cells:
  "map cl_id (shape_cells fl M ct sid ob cid) = [cid ..< cid + length (Elements ob)]"
  by (simp add: shape_cells_def cell_entry_def comp_def case_prod_unfold map_fst_enumerate [unfolded comp_def])

lemma ids_all_cells:
  "map cl_id (all_cells fl M ct k cid obs) = [cid ..< cid + sum_list (map (\<lambda>ob. length (Elements ob)) obs)]"
proof (induction obs arbitrary: k cid)
  case Nil
  then show ?case by simp
next
  case (Cons ob obs)
  have "[cid ..< cid + length (Elements ob) + sum_list (map (\<lambda>ob. length (Elements ob)) obs)] =
        [cid ..< cid + length (Elements ob)] @
        [cid + length (Elements ob) ..< cid + length (Elements ob) + sum_list (map (\<lambda>ob. length (Elements ob)) obs)]"
    by (rule upt_add_eq_append) simp
  with Cons show ?case
    by (simp add: ids_shape_cells add.assoc)
qed

lemma nth_all_cells:
  "s < length obs \<Longrightarrow> eid < length (Elements (obs ! s)) \<Longrightarrow>
   all_cells fl M ct k cid obs ! (cells_before obs s + eid) =
     cell_entry fl M ct (k + s) (obs ! s) (cid + cells_before obs s + eid) eid (Elements (obs ! s) ! eid)"
proof (induction obs arbitrary: k cid s)
  case Nil
  then show ?case by simp
next
  case (Cons ob obs)
  show ?case
  proof (cases s)
    case 0
    with Cons.prems show ?thesis
      by (simp add: cells_before_def nth_append length_shape_cells nth_shape_cells)
  next
    case (Suc s')
    with Cons.prems have "s' < length obs" "eid < length (Elements (obs ! s'))" by simp_all
    from Cons.IH [OF this] show ?thesis
      by (simp add: Suc cells_before_def nth_append length_shape_cells add.assoc)
  qed
qed

section \<open>The document of the concrete shapes\<close>

lemma ex_points:
  "all_points [ex_curve, ex_surf] =
     [(0, 0, 0, 1), (1, 0, 0, 1), (0, 0, 0, 1), (1, 0, 0, 1), (0, 1, 0, 1), (1, 1, 0, 1)]"
  by (simp add: all_points_def lattice_points_def ex_curve_def ex_surf_def upt_rec)

lemma ex_lattice:
  "lattice_points ex_curve = [(0, 0, 0, 1), (1, 0, 0, 1)]"
  "lattice_points ex_surf = [(0, 0, 0, 1), (1, 0, 0, 1), (0, 1, 0, 1), (1, 1, 0, 1)]"
  by (simp_all add: lattice_points_def ex_curve_def ex_surf_def upt_rec)

lemma ex_hash:
  "hash_of exact_fl (0, 0, 0, 1) = 0" "hash_of exact_fl (1, 0, 0, 1) = 10001"
  "hash_of exact_fl (0, 1, 0, 1) = 1000001" "hash_of exact_fl (1, 1, 0, 1) = 1010002"
  by (simp_all add: hash_of_def HashPoint_def exact_fl_def)

lemma ex_msh_eval: "WriteMshD_msh exact_fl [ex_curve, ex_surf] ex_vtagged ex_ctagged = Inr ex_msh"
  apply (simp add: WriteMshD_msh_def first_sweep_fold ex_points sweep0_def visit_def ex_hash Let_def
      vertex_tag_def ex_vtagged_def)
  apply (simp add: nurbs_blocks_def enumerate_eq_zip knots_lines_def ctrls_line_map lattice_points_def
      ex_curve_def ex_surf_def upt_rec lookup_id_def ex_hash cell_entry_def cell_tag_def
      ex_ctagged_def Sf_d_d_def NURBS_GEO_def ex_msh_def)
  done

section \<open>Properties of the document\<close>

lemma length_vert_lines: "length (vert_lines fl vt i xs) = length xs"
  by (simp add: vert_lines_def)

lemma nth_vert_lines:
  "j < length xs \<Longrightarrow>
   vert_lines fl vt i xs ! j = \<lparr> vl_id = i + j, vl_tag = vertex_tag vt (hash_of fl (xs ! j)), vl_c = xs ! j \<rparr>"
  by (simp add: vert_lines_def nth_enumerate_eq)

lemma ids_vert_lines: "map vl_id (vert_lines fl vt i xs) = [i ..< i + length xs]"
  by (simp add: vert_lines_def comp_def case_prod_unfold map_fst_enumerate [unfolded comp_def])

lemma coords_vert_lines: "map vl_c (vert_lines fl vt i xs) = xs"
  by (simp add: vert_lines_def comp_def case_prod_unfold map_snd_enumerate [unfolded comp_def])


lemma WriteMshD_msh_Inr:
  assumes "WriteMshD_msh fl nurbss vt ct = Inr m"
  shows "m_verts m = vert_lines fl vt 0 (discover fl [] (all_points nurbss))"
    and "m_nurbss m = nurbs_blocks fl (sw_verts (first_sweep fl vt nurbss)) nurbss"
    and "m_cells m = all_cells fl (sw_verts (first_sweep fl vt nurbss)) ct 0 0 nurbss"
proof -
  from assms obtain cid cells where
    c: "cells_sweep fl (sw_verts (first_sweep fl vt nurbss)) ct (enumerate 0 nurbss) (0, []) = Inr (cid, cells)"
    and m: "m = \<lparr> m_verts = sw_out (first_sweep fl vt nurbss),
                  m_nurbss = nurbs_blocks fl (sw_verts (first_sweep fl vt nurbss)) nurbss,
                  m_cells = cells \<rparr>"
    by (auto simp: WriteMshD_msh_def Let_def split: sum.splits)
  show "m_verts m = vert_lines fl vt 0 (discover fl [] (all_points nurbss))"
    by (simp add: m first_sweep_out)
  show "m_nurbss m = nurbs_blocks fl (sw_verts (first_sweep fl vt nurbss)) nurbss"
    by (simp add: m)
  show "m_cells m = all_cells fl (sw_verts (first_sweep fl vt nurbss)) ct 0 0 nurbss"
    using cells_sweep_Inr [OF c] by (simp add: m)
qed

lemma WriteMshD_Inr:
  "WriteMshD fl dirout fnk nurbss vt ct = Inr r \<longleftrightarrow>
     (\<exists>m. WriteMshD_msh fl nurbss vt ct = Inr m \<and> r = (dirout, fnk @ ''.msh'', msh_json m))"
  by (auto simp: WriteMshD_def split: sum.splits)


lemma nth_nurbs_blocks:
  "s < length nurbss \<Longrightarrow>
   nurbs_blocks fl M nurbss ! s =
     \<lparr> nb_id = s, nb_gnd = gnd (nurbss ! s), nb_ords = p (nurbss ! s),
       nb_knots = knots_lines (nurbss ! s), nb_ctrls = ctrls_line fl M (nurbss ! s) \<rparr>"
  by (simp add: nurbs_blocks_def nth_enumerate_eq)

lemma ids_nurbs_blocks: "map nb_id (nurbs_blocks fl M nurbss) = [0 ..< length nurbss]"
  by (simp add: nurbs_blocks_def comp_def case_prod_unfold map_fst_enumerate [unfolded comp_def])

lemma ctrl_id:
  assumes "WriteMshD_msh fl nurbss vt ct = Inr m" "s < length nurbss"
    "l < length (lattice_points (nurbss ! s))"
  shows "sw_verts (first_sweep fl vt nurbss) (hash_of fl (lattice_points (nurbss ! s) ! l))
           = Some (nb_ctrls (m_nurbss m ! s) ! l)"
proof -
  let ?x = "lattice_points (nurbss ! s) ! l"
  have "?x \<in> set (all_points nurbss)"
    using assms(2,3) by (intro lattice_in_all_points [of "nurbss ! s"]) simp_all
  from first_sweep_inserted [OF this] obtain i where
    i: "sw_verts (first_sweep fl vt nurbss) (hash_of fl ?x) = Some i" by blast
  have "nb_ctrls (m_nurbss m ! s) ! l = lookup_id (sw_verts (first_sweep fl vt nurbss)) (hash_of fl ?x)"
    using assms by (simp add: WriteMshD_msh_Inr(2) nth_nurbs_blocks ctrls_line_map)
  with i show ?thesis by (simp add: lookup_id_def)
qed

text \<open>
  Claim C10. Every key that the second sweep looks up in \<open>verts\<close> was inserted by the
  first sweep: for the \<open>l\<close>-th control point of shape \<open>s\<close> the map holds an id, that
  id is the control id printed, it is below the number of vertices, and the vertex
  printed with that id has the key of the control point. The lookup never takes the
  zero default of an absent key.
\<close>

theorem ctrl_lookup_was_inserted:
  assumes "WriteMshD_msh fl nurbss vtagged ctagged = Inr m"
    and "s < length nurbss"
    and "l < length (lattice_points (nurbss ! s))"
  shows "sw_verts (first_sweep fl vtagged nurbss) (hash_of fl (lattice_points (nurbss ! s) ! l))
           = Some (nb_ctrls (m_nurbss m ! s) ! l)
       \<and> nb_ctrls (m_nurbss m ! s) ! l < length (m_verts m)
       \<and> vl_id (m_verts m ! (nb_ctrls (m_nurbss m ! s) ! l)) = nb_ctrls (m_nurbss m ! s) ! l
       \<and> hash_of fl (vl_c (m_verts m ! (nb_ctrls (m_nurbss m ! s) ! l)))
           = hash_of fl (lattice_points (nurbss ! s) ! l)"
proof -
  let ?c = "nb_ctrls (m_nurbss m ! s) ! l"
  let ?ds = "discover fl [] (all_points nurbss)"
  have some: "sw_verts (first_sweep fl vtagged nurbss) (hash_of fl (lattice_points (nurbss ! s) ! l)) = Some ?c"
    using assms by (rule ctrl_id)
  then have c: "?c < length ?ds" "hash_of fl (?ds ! ?c) = hash_of fl (lattice_points (nurbss ! s) ! l)"
    by (simp_all add: first_sweep_verts_iff)
  have v: "m_verts m = vert_lines fl vtagged 0 ?ds"
    using assms(1) by (rule WriteMshD_msh_Inr(1))
  show ?thesis
    using some c by (simp add: v length_vert_lines nth_vert_lines)
qed

theorem ctrl_lookup_was_inserted_witness:
  "sw_verts (first_sweep exact_fl ex_vtagged [ex_curve, ex_surf])
      (hash_of exact_fl (lattice_points ex_surf ! 2)) = Some 2
   \<and> vl_id (m_verts ex_msh ! 2) = 2"
proof -
  have l: "(2::nat) < length (lattice_points ([ex_curve, ex_surf] ! 1))"
    by (simp add: ex_lattice)
  have s: "(1::nat) < length [ex_curve, ex_surf]" by simp
  show ?thesis
    using ctrl_lookup_was_inserted [OF ex_msh_eval s l] by (simp add: ex_msh_def)
qed

text \<open>
  Claim C2. Two control points, of any two shapes and at any two lattice positions,
  are printed with the same vertex id exactly when \<open>HashPoint\<close> gives them the same
  key: equal keys give equal ids, different keys give different ids.
\<close>

theorem same_key_same_vertex_id:
  assumes "WriteMshD_msh fl nurbss vtagged ctagged = Inr m"
    and "a < length nurbss" and "l < length (lattice_points (nurbss ! a))"
    and "b < length nurbss" and "l' < length (lattice_points (nurbss ! b))"
  shows "nb_ctrls (m_nurbss m ! a) ! l = nb_ctrls (m_nurbss m ! b) ! l' \<longleftrightarrow>
         hash_of fl (lattice_points (nurbss ! a) ! l) = hash_of fl (lattice_points (nurbss ! b) ! l')"
proof -
  let ?M = "sw_verts (first_sweep fl vtagged nurbss)"
  let ?x = "lattice_points (nurbss ! a) ! l" and ?y = "lattice_points (nurbss ! b) ! l'"
  let ?c = "nb_ctrls (m_nurbss m ! a) ! l" and ?d = "nb_ctrls (m_nurbss m ! b) ! l'"
  have x: "?M (hash_of fl ?x) = Some ?c" using assms(1,2,3) by (rule ctrl_id)
  have y: "?M (hash_of fl ?y) = Some ?d" using assms(1,4,5) by (rule ctrl_id)
  show ?thesis
  proof
    assume "?c = ?d"
    with x y show "hash_of fl ?x = hash_of fl ?y"
      by (simp add: first_sweep_verts_iff)
  next
    assume "hash_of fl ?x = hash_of fl ?y"
    with x y show "?c = ?d" by simp
  qed
qed

theorem same_key_same_vertex_id_witness:
  "nb_ctrls (m_nurbss ex_msh ! 0) ! 1 = nb_ctrls (m_nurbss ex_msh ! 1) ! 1
   \<and> hash_of exact_fl (lattice_points ex_curve ! 1) = hash_of exact_fl (lattice_points ex_surf ! 1)
   \<and> nb_ctrls (m_nurbss ex_msh ! 0) ! 1 \<noteq> nb_ctrls (m_nurbss ex_msh ! 1) ! 2
   \<and> hash_of exact_fl (lattice_points ex_curve ! 1) \<noteq> hash_of exact_fl (lattice_points ex_surf ! 2)"
proof -
  have a: "(0::nat) < length [ex_curve, ex_surf]" and b: "(1::nat) < length [ex_curve, ex_surf]"
    by simp_all
  have l: "(1::nat) < length (lattice_points ([ex_curve, ex_surf] ! 0))"
    by (simp add: ex_lattice)
  have l1: "(1::nat) < length (lattice_points ([ex_curve, ex_surf] ! 1))"
    and l2: "(2::nat) < length (lattice_points ([ex_curve, ex_surf] ! 1))"
    by (simp_all add: ex_lattice)
  have c: "nb_ctrls (m_nurbss ex_msh ! 0) ! 1 = nb_ctrls (m_nurbss ex_msh ! 1) ! 1"
     "nb_ctrls (m_nurbss ex_msh ! 0) ! 1 \<noteq> nb_ctrls (m_nurbss ex_msh ! 1) ! 2"
    by (simp_all add: ex_msh_def)
  show ?thesis
    using same_key_same_vertex_id [OF ex_msh_eval a l b l1]
      same_key_same_vertex_id [OF ex_msh_eval a l b l2] c
    by simp
qed

text \<open>
  Claim C3. In a document that \<open>WriteMshD\<close> writes the vertex ids are \<open>0..N-1\<close> in the
  order of the list, which is the order of first discovery; the shape ids are
  \<open>0..S-1\<close> in the order of the input, the entry with id \<open>s\<close> describing shape \<open>s\<close>; the
  cell ids are \<open>0..C-1\<close>, where \<open>C\<close> is the sum of the element counts, and element
  \<open>eid\<close> of shape \<open>s\<close> has the id that continues the count of the cells of the shapes
  before \<open>s\<close>.
\<close>

theorem ids_are_dense:
  assumes "WriteMshD_msh fl nurbss vtagged ctagged = Inr m"
  shows "map vl_id (m_verts m) = [0 ..< length (m_verts m)]
       \<and> map vl_c (m_verts m) = discover fl [] (all_points nurbss)
       \<and> map nb_id (m_nurbss m) = [0 ..< length nurbss]
       \<and> (\<forall>s < length nurbss.
            nb_id (m_nurbss m ! s) = s \<and> nb_gnd (m_nurbss m ! s) = gnd (nurbss ! s)
          \<and> nb_ords (m_nurbss m ! s) = p (nurbss ! s)
          \<and> nb_knots (m_nurbss m ! s) = knots_lines (nurbss ! s))
       \<and> map cl_id (m_cells m) = [0 ..< sum_list (map (\<lambda>ob. length (Elements ob)) nurbss)]
       \<and> (\<forall>s < length nurbss. \<forall>eid < length (Elements (nurbss ! s)).
            cl_nrb (m_cells m ! (cells_before nurbss s + eid)) = s
          \<and> cl_id (m_cells m ! (cells_before nurbss s + eid)) = cells_before nurbss s + eid)"
proof -
  note d = WriteMshD_msh_Inr [OF assms]
  have 1: "map vl_id (m_verts m) = [0 ..< length (m_verts m)]"
    by (simp add: d(1) ids_vert_lines length_vert_lines)
  have 2: "map vl_c (m_verts m) = discover fl [] (all_points nurbss)"
    by (simp add: d(1) coords_vert_lines)
  have 3: "map nb_id (m_nurbss m) = [0 ..< length nurbss]"
    by (simp add: d(2) ids_nurbs_blocks)
  have 4: "map cl_id (m_cells m) = [0 ..< sum_list (map (\<lambda>ob. length (Elements ob)) nurbss)]"
    using ids_all_cells [of fl _ ctagged 0 0 nurbss] by (simp add: d(3))
  have 5: "cl_nrb (m_cells m ! (cells_before nurbss s + eid)) = s
         \<and> cl_id (m_cells m ! (cells_before nurbss s + eid)) = cells_before nurbss s + eid"
    if "s < length nurbss" "eid < length (Elements (nurbss ! s))" for s eid
    using nth_all_cells [OF that, of fl _ ctagged 0 0] by (simp add: d(3) cell_entry_def)
  have 6: "nb_id (m_nurbss m ! s) = s \<and> nb_gnd (m_nurbss m ! s) = gnd (nurbss ! s)
         \<and> nb_ords (m_nurbss m ! s) = p (nurbss ! s)
         \<and> nb_knots (m_nurbss m ! s) = knots_lines (nurbss ! s)"
    if "s < length nurbss" for s
    using that by (simp add: d(2) nth_nurbs_blocks)
  from 1 2 3 4 5 6 show ?thesis by blast
qed

theorem ids_are_dense_witness:
  "map vl_id (m_verts ex_msh) = [0, 1, 2, 3]
   \<and> map nb_id (m_nurbss ex_msh) = [0, 1]
   \<and> map cl_id (m_cells ex_msh) = [0, 1]
   \<and> cl_nrb (m_cells ex_msh ! 1) = 1 \<and> cl_id (m_cells ex_msh ! 1) = 1"
proof -
  have s: "(1::nat) < length [ex_curve, ex_surf]" by simp
  have e: "(0::nat) < length (Elements ([ex_curve, ex_surf] ! 1))" by (simp add: ex_surf_def)
  have cb: "cells_before [ex_curve, ex_surf] 1 + 0 = 1"
    by (simp add: cells_before_def ex_curve_def)
  have len: "[0 ..< length (m_verts ex_msh)] = [0, 1, 2, 3]"
    by (simp add: ex_msh_def upt_rec)
  have len2: "[0 ..< length [ex_curve, ex_surf]] = [0, 1]"
    by (simp add: upt_rec)
  have tot: "[0 ..< sum_list (map (\<lambda>ob. length (Elements ob)) [ex_curve, ex_surf])] = [0, 1]"
    by (simp add: ex_curve_def ex_surf_def upt_rec)
  from ids_are_dense [OF ex_msh_eval] have
    "map vl_id (m_verts ex_msh) = [0 ..< length (m_verts ex_msh)]"
    "map nb_id (m_nurbss ex_msh) = [0 ..< length [ex_curve, ex_surf]]"
    "map cl_id (m_cells ex_msh) = [0 ..< sum_list (map (\<lambda>ob. length (Elements ob)) [ex_curve, ex_surf])]"
    "cl_nrb (m_cells ex_msh ! (cells_before [ex_curve, ex_surf] 1 + 0)) = 1"
    "cl_id (m_cells ex_msh ! (cells_before [ex_curve, ex_surf] 1 + 0)) = cells_before [ex_curve, ex_surf] 1 + 0"
    using s e by blast+
  then show ?thesis
    unfolding cb len len2 tot by blast
qed

text \<open>
  Claim C6. For a shape with control counts \<open>(n0, n1, n2)\<close> the list of control ids
  has \<open>n0 * n1 * n2\<close> entries, and its entry \<open>i + n0 * j + n0 * n1 * k\<close> is the id of the
  control point \<open>GetQ i j k\<close>: axis 2 is the outer loop, axis 0 the innermost. The
  first sweep visits the control points of the shape in the same order, so that the
  vertices are the newly met points of that traversal, shape after shape.
\<close>

theorem traversal_order:
  assumes "WriteMshD_msh fl nurbss vtagged ctagged = Inr m"
    and "s < length nurbss"
    and "n (nurbss ! s) = (n0, n1, n2)"
  shows "length (nb_ctrls (m_nurbss m ! s)) = n0 * n1 * n2
       \<and> (\<forall>i < n0. \<forall>j < n1. \<forall>k < n2.
            nb_ctrls (m_nurbss m ! s) ! (i + n0 * j + n0 * n1 * k)
              = lookup_id (sw_verts (first_sweep fl vtagged nurbss)) (hash_of fl (GetQ (nurbss ! s) i j k))
          \<and> lattice_points (nurbss ! s) ! (i + n0 * j + n0 * n1 * k) = GetQ (nurbss ! s) i j k)
       \<and> sweep_shape fl vtagged (nurbss ! s) = fold (visit fl vtagged) (lattice_points (nurbss ! s))
       \<and> first_sweep fl vtagged nurbss = fold (visit fl vtagged) (concat (map lattice_points nurbss)) sweep0
       \<and> map vl_c (m_verts m) = discover fl [] (concat (map lattice_points nurbss))"
proof -
  note d = WriteMshD_msh_Inr [OF assms(1)]
  let ?ob = "nurbss ! s"
  let ?M = "sw_verts (first_sweep fl vtagged nurbss)"
  have c: "nb_ctrls (m_nurbss m ! s) = map (\<lambda>x. lookup_id ?M (hash_of fl x)) (lattice_points ?ob)"
    using assms(2) by (simp add: d(2) nth_nurbs_blocks ctrls_line_map)
  have len: "length (lattice_points ?ob) = n0 * n1 * n2"
    using assms(3) by (rule length_lattice_points)
  have 1: "length (nb_ctrls (m_nurbss m ! s)) = n0 * n1 * n2"
    by (simp add: c len)
  have 2: "nb_ctrls (m_nurbss m ! s) ! (i + n0 * j + n0 * n1 * k) = lookup_id ?M (hash_of fl (GetQ ?ob i j k))
         \<and> lattice_points ?ob ! (i + n0 * j + n0 * n1 * k) = GetQ ?ob i j k"
    if "i < n0" "j < n1" "k < n2" for i j k
  proof -
    have nth: "lattice_points ?ob ! (i + n0 * j + n0 * n1 * k) = GetQ ?ob i j k"
      using assms(3) that by (rule nth_lattice_points)
    have "i + n0 * j < n0 * n1"
    proof -
      have "Suc j \<le> n1" using that(2) by simp
      then have "n0 * Suc j \<le> n0 * n1" by (rule mult_le_mono2)
      then show ?thesis using that(1) by simp
    qed
    moreover have "n0 * n1 * Suc k \<le> n0 * n1 * n2"
      using that(3) by (intro mult_le_mono2) simp
    ultimately have "i + n0 * j + n0 * n1 * k < length (lattice_points ?ob)"
      by (simp add: len)
    then show ?thesis by (simp add: c nth)
  qed
  have 3: "map vl_c (m_verts m) = discover fl [] (concat (map lattice_points nurbss))"
    by (simp add: d(1) coords_vert_lines all_points_def)
  have 4: "first_sweep fl vtagged nurbss = fold (visit fl vtagged) (concat (map lattice_points nurbss)) sweep0"
    by (simp add: first_sweep_fold all_points_def)
  from 1 2 3 4 sweep_shape_fold [of fl vtagged ?ob] show ?thesis by blast
qed

theorem traversal_order_witness:
  "length (nb_ctrls (m_nurbss ex_msh ! 1)) = 2 * 2 * 1
   \<and> lattice_points ex_surf ! (1 + 2 * 0 + 2 * 2 * 0) = GetQ ex_surf 1 0 0
   \<and> lattice_points ex_surf ! (0 + 2 * 1 + 2 * 2 * 0) = GetQ ex_surf 0 1 0
   \<and> nb_ctrls (m_nurbss ex_msh ! 1) ! (0 + 2 * 1 + 2 * 2 * 0) = 2"
proof -
  have s: "(1::nat) < length [ex_curve, ex_surf]" by simp
  have n: "n ([ex_curve, ex_surf] ! 1) = (2, 2, 1)" by (simp add: ex_surf_def)
  have b: "(1::nat) < 2" "(0::nat) < 2" "(0::nat) < 1" by simp_all
  have o: "[ex_curve, ex_surf] ! 1 = ex_surf" by simp
  from traversal_order [OF ex_msh_eval s n] b have
    "length (nb_ctrls (m_nurbss ex_msh ! 1)) = 2 * 2 * 1"
    "lattice_points ([ex_curve, ex_surf] ! 1) ! (1 + 2 * 0 + 2 * 2 * 0) = GetQ ([ex_curve, ex_surf] ! 1) 1 0 0"
    "lattice_points ([ex_curve, ex_surf] ! 1) ! (0 + 2 * 1 + 2 * 2 * 0) = GetQ ([ex_curve, ex_surf] ! 1) 0 1 0"
    by blast+
  moreover have "nb_ctrls (m_nurbss ex_msh ! 1) ! (0 + 2 * 1 + 2 * 2 * 0) = 2"
    by (simp add: ex_msh_def)
  ultimately show ?thesis
    unfolding o by blast
qed



section \<open>Properties of ReadMsh\<close>

lemma matches_Data:
  "matches ''Verts'' ''verts''" "\<not> matches ''Verts'' ''nurbss''" "\<not> matches ''Verts'' ''cells''"
  "matches ''Nurbss'' ''nurbss''" "\<not> matches ''Nurbss'' ''cells''"
  by (simp_all add: matches_def lower_def)

lemma matches_Vert:
  "matches ''Id'' ''id''" "\<not> matches ''Id'' ''tag''" "\<not> matches ''Id'' ''c''"
  "matches ''Tag'' ''tag''" "\<not> matches ''Tag'' ''c''" "matches ''C'' ''c''"
  by (simp_all add: matches_def lower_def)

lemma matches_NurbsD:
  "\<not> matches ''Id'' ''gnd''" "\<not> matches ''Id'' ''ords''" "\<not> matches ''Id'' ''knots''" "\<not> matches ''Id'' ''ctrls''"
  "matches ''Gnd'' ''gnd''" "\<not> matches ''Gnd'' ''ords''" "\<not> matches ''Gnd'' ''knots''" "\<not> matches ''Gnd'' ''ctrls''"
  "matches ''Ords'' ''ords''" "\<not> matches ''Ords'' ''knots''" "\<not> matches ''Ords'' ''ctrls''"
  "matches ''Knots'' ''knots''" "\<not> matches ''Knots'' ''ctrls''" "matches ''Ctrls'' ''ctrls''"
  by (simp_all add: matches_def lower_def)

lemma traverse_Inr_map:
  "(\<And>x. x \<in> set xs \<Longrightarrow> f x = Inr (g x)) \<Longrightarrow> traverse f xs = Inr (map g xs)"
  by (induction xs) simp_all

lemma traverse_Inl:
  "x \<in> set xs \<Longrightarrow> (\<And>y. y \<in> set xs \<Longrightarrow> f y = Inr (g y) \<or> f y = Inl e) \<Longrightarrow> f x = Inl e
   \<Longrightarrow> traverse f xs = Inl e"
proof (induction xs)
  case Nil
  then show ?case by simp
next
  case (Cons a xs)
  show ?case
  proof (cases "f a")
    case (Inl e')
    with Cons.prems(2) [of a] show ?thesis by auto
  next
    case (Inr b)
    with Cons.prems have "x \<in> set xs" by auto
    from Cons.IH [OF this] Cons.prems have "traverse f xs = Inl e" by auto
    with Inr show ?thesis by simp
  qed
qed

lemma vert_row_eq:
  "vert_row v = (if 4 \<le> length (Vert_C v) then Inr (take 4 (Vert_C v)) else Inl index_out_of_range)"
proof (cases "4 \<le> length (Vert_C v)")
  case True
  have u: "[0..<4] = [0, 1, 2, 3]" by (simp add: upt_rec)
  have "take 4 (Vert_C v) = map (\<lambda>i. Vert_C v ! i) [0..<4]"
    using True by (intro nth_equalityI) simp_all
  also have "Inr \<dots> = traverse (at_index (Vert_C v)) [0..<4]"
    using True by (intro traverse_Inr_map [symmetric]) (simp add: at_index_def)
  finally show ?thesis using True by (simp add: vert_row_def)
next
  case False
  have "traverse (at_index (Vert_C v)) [0..<4] = Inl index_out_of_range"
  proof (rule traverse_Inl [where x = 3 and g = "\<lambda>i. Vert_C v ! i"])
    show "(3::nat) \<in> set [0..<4]" by simp
    show "at_index (Vert_C v) 3 = Inl index_out_of_range" using False by (simp add: at_index_def)
    show "at_index (Vert_C v) y = Inr (Vert_C v ! y) \<or> at_index (Vert_C v) y = Inl index_out_of_range" for y
      by (simp add: at_index_def)
  qed
  with False show ?thesis by (simp add: vert_row_def)
qed

lemma ReadMsh_verts_eq:
  "ReadMsh_verts vs =
     (if \<forall>v \<in> set vs. 4 \<le> length (Vert_C v) then Inr (map (\<lambda>v. take 4 (Vert_C v)) vs)
      else Inl index_out_of_range)"
proof (cases "\<forall>v \<in> set vs. 4 \<le> length (Vert_C v)")
  case True
  then have "traverse vert_row vs = Inr (map (\<lambda>v. take 4 (Vert_C v)) vs)"
    by (intro traverse_Inr_map) (simp add: vert_row_eq)
  with True show ?thesis by (simp add: ReadMsh_verts_def)
next
  case False
  then obtain v where v: "v \<in> set vs" "\<not> 4 \<le> length (Vert_C v)" by blast
  have "traverse vert_row vs = Inl index_out_of_range"
    by (rule traverse_Inl [where x = v and g = "\<lambda>v. take 4 (Vert_C v)"])
       (use v in \<open>simp_all add: vert_row_eq\<close>)
  with False show ?thesis by (simp add: ReadMsh_verts_def)
qed

lemma short_doc_panics: "ReadMsh exact_fl cb (\<lambda>fn. Some (JSONText short_doc)) fnk = Inl index_out_of_range"
  by (simp add: ReadMsh_def Unmarshal_def short_doc_def Data_member_def matches_Data matches_Vert Vert_member_def
     Data0_def Vert0_def dec_floats_def ReadMsh_verts_def vert_row_def at_index_def upt_rec)

text \<open>
  Claim C9. \<open>ReadMsh\<close> reads the entries 0 to 3 of the coordinates of every vertex.
  When every vertex has at least four coordinates no index is out of range and the
  table holds the first four of each; when some vertex has fewer the read panics with
  an index out of range. The document \<open>short_doc\<close>, whose vertex has three coordinates,
  decodes without error and makes \<open>ReadMsh\<close> panic in this way, not with one of its
  own two errors.
\<close>

theorem vertex_coordinates_unchecked:
  "((\<forall>v \<in> set vs. 4 \<le> length (Vert_C v)) \<longrightarrow>
      ReadMsh_verts vs = Inr (map (\<lambda>v. take 4 (Vert_C v)) vs))
   \<and> ((\<exists>v \<in> set vs. length (Vert_C v) < 4) \<longrightarrow> ReadMsh_verts vs = Inl index_out_of_range)
   \<and> (\<exists>dat. Unmarshal exact_fl (JSONText short_doc) = Inr dat)
   \<and> ReadMsh exact_fl cb (\<lambda>fn. Some (JSONText short_doc)) fnk = Inl index_out_of_range"
proof -
  have "\<exists>dat. Unmarshal exact_fl (JSONText short_doc) = Inr dat"
    by (simp add: Unmarshal_def short_doc_def Data_member_def matches_Data matches_Vert Vert_member_def
        Data0_def Vert0_def dec_floats_def)
  moreover have "(\<exists>v \<in> set vs. length (Vert_C v) < 4) \<longrightarrow> ReadMsh_verts vs = Inl index_out_of_range"
    by (auto simp: ReadMsh_verts_eq)
  ultimately show ?thesis
    by (simp add: ReadMsh_verts_eq short_doc_panics)
qed

theorem vertex_coordinates_unchecked_witness:
  "ReadMsh_verts [\<lparr> Vert_Id = 0, Vert_Tag = 0, Vert_C = [0, 0, 0, 1, 9 :: real] \<rparr>] = Inr [[0, 0, 0, 1]]
   \<and> ReadMsh_verts [\<lparr> Vert_Id = 0, Vert_Tag = 0, Vert_C = [0, 0, 1 :: real] \<rparr>] = Inl index_out_of_range"
  using vertex_coordinates_unchecked
      [of "[\<lparr> Vert_Id = 0, Vert_Tag = 0, Vert_C = [0, 0, 0, 1, 9 :: real] \<rparr>]" "spec_nurbs :: (real, real shape) collaborator" "''f''"]
    vertex_coordinates_unchecked
      [of "[\<lparr> Vert_Id = 0, Vert_Tag = 0, Vert_C = [0, 0, 1 :: real] \<rparr>]" "spec_nurbs :: (real, real shape) collaborator" "''f''"]
  by simp

lemma gap_doc_decodes:
  "Unmarshal exact_fl (JSONText gap_doc) =
     Inr \<lparr> Verts = [\<lparr> Vert_Id = 2, Vert_Tag = 0, Vert_C = [1, 1, 1, 1] \<rparr>,
                    \<lparr> Vert_Id = 0, Vert_Tag = 0, Vert_C = [0, 0, 0, 1] \<rparr>],
           Nurbss = [\<lparr> NurbsD_Id = 0, NurbsD_Gnd = 1, NurbsD_Ords = [1, 0, 0],
                       NurbsD_Knots = [[0, 0, 1, 1]], NurbsD_Ctrls = [0, 1] \<rparr>] \<rparr>"
  by (simp add: Unmarshal_def gap_doc_def Data_member_def matches_Data matches_Vert matches_NurbsD
      Vert_member_def NurbsD_member_def Data0_def Vert0_def NurbsD0_def dec_floats_def dec_ints_def)

text \<open>
  Claim C5, as stated, fails on the document \<open>gap_doc\<close>: its vertex ids are 2 and 0,
  \<open>ReadMsh\<close> does not fail, and control id 0 is bound to the coordinates of the vertex
  that states id 2, while the vertex that states id 0 has other coordinates.
\<close>

theorem vertex_ids_unchecked_counterexample:
  "Unmarshal exact_fl (JSONText gap_doc) =
     Inr \<lparr> Verts = [\<lparr> Vert_Id = 2, Vert_Tag = 0, Vert_C = [1, 1, 1, 1] \<rparr>,
                    \<lparr> Vert_Id = 0, Vert_Tag = 0, Vert_C = [0, 0, 0, 1] \<rparr>],
           Nurbss = [\<lparr> NurbsD_Id = 0, NurbsD_Gnd = 1, NurbsD_Ords = [1, 0, 0],
                       NurbsD_Knots = [[0, 0, 1, 1]], NurbsD_Ctrls = [0, 1] \<rparr>] \<rparr>
   \<and> ReadMsh exact_fl spec_nurbs (\<lambda>fn. Some (JSONText gap_doc)) ''f'' =
     Inr [\<lparr> sh_dim = 1, sh_orders = [1, 0, 0], sh_knots = [[0, 0, 1, 1]],
            sh_control = [[1, 1, 1, 1], [0, 0, 0, 1]] \<rparr>]"
  by (simp add: gap_doc_decodes ReadMsh_def ReadMsh_verts_eq ReadMsh_nurbss_def spec_nurbs_def
      spec_Init_def spec_SetControl_def at_index_def)

text \<open>
  Claim C5, amended. \<open>ReadMsh\<close> builds its vertex table by position: row \<open>i\<close> holds the
  first four coordinates of the \<open>i\<close>-th entry of the list of vertices. The field
  \<open>Id\<close> is not read, so the table is the same whatever the ids are, and no error is
  raised for ids that are not contiguous from 0. When the ids are \<open>0..N-1\<close> in the order
  of the list, as in the documents that \<open>WriteMshD\<close> writes, the row of a vertex is the
  row at its id.
\<close>

theorem vertex_table_by_position:
  assumes "ReadMsh_verts vs = Inr table"
  shows "length table = length vs
       \<and> (\<forall>i < length vs. table ! i = take 4 (Vert_C (vs ! i)))
       \<and> ReadMsh_verts (map (\<lambda>v. v\<lparr> Vert_Id := f v \<rparr>) vs) = Inr table
       \<and> (map Vert_Id vs = map int [0 ..< length vs] \<longrightarrow>
            (\<forall>v \<in> set vs. table ! nat (Vert_Id v) = take 4 (Vert_C v)))"
proof -
  from assms have ok: "\<forall>v \<in> set vs. 4 \<le> length (Vert_C v)"
    and t: "table = map (\<lambda>v. take 4 (Vert_C v)) vs"
    by (auto simp: ReadMsh_verts_eq split: if_splits)
  have 1: "length table = length vs" by (simp add: t)
  have 2: "\<forall>i < length vs. table ! i = take 4 (Vert_C (vs ! i))" by (simp add: t)
  have 3: "ReadMsh_verts (map (\<lambda>v. v\<lparr> Vert_Id := f v \<rparr>) vs) = Inr table"
    using ok by (simp add: ReadMsh_verts_eq t comp_def)
  have 4: "table ! nat (Vert_Id v) = take 4 (Vert_C v)"
    if ids: "map Vert_Id vs = map int [0 ..< length vs]" and v: "v \<in> set vs" for v
  proof -
    from v obtain i where i: "i < length vs" "vs ! i = v" by (auto simp: in_set_conv_nth)
    from ids i(1) have "map Vert_Id vs ! i = map int [0 ..< length vs] ! i" by simp
    with i have "Vert_Id v = int i" by simp
    with i show ?thesis by (simp add: t)
  qed
  from 1 2 3 4 show ?thesis by blast
qed

theorem vertex_table_by_position_witness:
  "ReadMsh_verts [\<lparr> Vert_Id = 0, Vert_Tag = 0, Vert_C = [5, 6, 7, 1 :: real] \<rparr>] = Inr [[5, 6, 7, 1]]
   \<and> ReadMsh_verts [\<lparr> Vert_Id = 9, Vert_Tag = 0, Vert_C = [5, 6, 7, 1 :: real] \<rparr>] = Inr [[5, 6, 7, 1]]
   \<and> [[5, 6, 7, 1 :: real]] ! nat 0 = take 4 [5, 6, 7, 1]"
proof -
  let ?vs = "[\<lparr> Vert_Id = 0, Vert_Tag = 0, Vert_C = [5, 6, 7, 1 :: real] \<rparr>]"
  have r: "ReadMsh_verts ?vs = Inr [[5, 6, 7, 1]]"
    by (simp add: ReadMsh_verts_eq)
  have ids: "map Vert_Id ?vs = map int [0 ..< length ?vs]" by simp
  from vertex_table_by_position [OF r, of "\<lambda>v. 9"] ids have
    "ReadMsh_verts (map (\<lambda>v. v\<lparr> Vert_Id := 9 \<rparr>) ?vs) = Inr [[5, 6, 7, 1]]"
    "\<forall>v \<in> set ?vs. [[5, 6, 7, 1 :: real]] ! nat (Vert_Id v) = take 4 (Vert_C v)"
    by blast+
  with r show ?thesis by simp
qed

lemma map_sum_Inr_iff: "map_sum f g x = Inr y \<longleftrightarrow> (\<exists>z. x = Inr z \<and> y = g z)"
  by (cases x) auto

lemma dec_members_keeps_Nurbss:
  "dec_members (Data_member fl) ms d = Inr d' \<Longrightarrow> \<forall>(k, j) \<in> set ms. \<not> matches ''Nurbss'' k
   \<Longrightarrow> Nurbss d' = Nurbss d"
proof (induction ms arbitrary: d)
  case Nil
  then show ?case by simp
next
  case (Cons a ms)
  obtain k j where a: "a = (k, j)" by (cases a)
  from Cons.prems(1) obtain d1 where
    1: "Data_member fl (k, j) d = Inr d1" and 2: "dec_members (Data_member fl) ms d1 = Inr d'"
    by (auto simp: a split: sum.splits)
  have "\<not> matches ''Nurbss'' k" using Cons.prems(2) by (simp add: a)
  with 1 have "Nurbss d1 = Nurbss d"
    by (auto simp: Data_member_def map_sum_Inr_iff split: if_splits)
  moreover have "Nurbss d' = Nurbss d1"
    using Cons.IH [OF 2] Cons.prems(2) by simp
  ultimately show ?case by simp
qed

text \<open>
  Claim C4, as stated, fails on the document \<open>no_shapes_doc\<close>, which has no member
  \<open>nurbss\<close>: \<open>ReadMsh\<close> does not fail, it returns the empty list of objects.
\<close>

theorem missing_shapes_counterexample:
  "ReadMsh exact_fl spec_nurbs (\<lambda>fn. Some (JSONText no_shapes_doc)) ''f'' = Inr []"
  by (simp add: ReadMsh_def Unmarshal_def no_shapes_doc_def Data_member_def matches_Data matches_Vert
      Vert_member_def Data0_def Vert0_def dec_floats_def ReadMsh_verts_eq ReadMsh_nurbss_def)

text \<open>
  Claim C4, amended. A missing member \<open>nurbss\<close> is no error of \<open>json.Unmarshal\<close>: when
  the document is an object none of whose keys names the field \<open>Nurbss\<close>, and it
  decodes, and every vertex has at least four coordinates, \<open>ReadMsh\<close> succeeds and
  returns the empty list of objects. Whenever \<open>json.Unmarshal\<close> does return an error,
  \<open>ReadMsh\<close> fails with its second error, which carries the name of the file and the
  cause, and returns no objects.
\<close>

theorem missing_shapes_field:
  "(ReadFile (fnk @ ''.msh'') = Some (JSONText (JObj ms))
      \<and> (\<forall>(k, j) \<in> set ms. \<not> matches ''Nurbss'' k)
      \<and> Unmarshal fl (JSONText (JObj ms)) = Inr dat
      \<and> (\<forall>v \<in> set (Verts dat). 4 \<le> length (Vert_C v))
    \<longrightarrow> ReadMsh fl cb ReadFile fnk = Inr [])
   \<and> (ReadFile (fnk @ ''.msh'') = Some buf \<and> Unmarshal fl buf = Inl err
    \<longrightarrow> ReadMsh fl cb ReadFile fnk = Inl (io_err2 (fnk @ ''.msh'') err))"
proof -
  have 1: "ReadMsh fl cb ReadFile fnk = Inr []"
    if r: "ReadFile (fnk @ ''.msh'') = Some (JSONText (JObj ms))"
      and k: "\<forall>(k, j) \<in> set ms. \<not> matches ''Nurbss'' k"
      and u: "Unmarshal fl (JSONText (JObj ms)) = Inr dat"
      and v: "\<forall>v \<in> set (Verts dat). 4 \<le> length (Vert_C v)"
  proof -
    from u have "dec_members (Data_member fl) ms Data0 = Inr dat"
      by (simp add: Unmarshal_def)
    from dec_members_keeps_Nurbss [OF this k] have "Nurbss dat = []"
      by (simp add: Data0_def)
    then show ?thesis
      using r u v by (simp add: ReadMsh_def ReadMsh_verts_eq ReadMsh_nurbss_def)
  qed
  have 2: "ReadMsh fl cb ReadFile fnk = Inl (io_err2 (fnk @ ''.msh'') err)"
    if "ReadFile (fnk @ ''.msh'') = Some buf" "Unmarshal fl buf = Inl err"
    using that by (simp add: ReadMsh_def)
  from 1 2 show ?thesis by blast
qed

theorem missing_shapes_field_witness:
  "ReadMsh exact_fl spec_nurbs (\<lambda>fn. Some (JSONText no_shapes_doc)) ''f'' = Inr []
   \<and> ReadMsh exact_fl spec_nurbs (\<lambda>fn. Some NotJSON) ''f'' = Inl (io_err2 ''f.msh'' SyntaxError)
   \<and> ReadMsh exact_fl spec_nurbs (\<lambda>fn. Some (JSONText (JObj [(''nurbss'', JInt 3)]))) ''f''
       = Inl (io_err2 ''f.msh'' UnmarshalTypeError)"
proof -
  let ?ms = "[(''verts'', JArr [JObj [(''id'', JInt 0), (''tag'', JInt 0),
                                      (''c'', JArr [JFlt 0, JFlt 0, JFlt 0, JFlt (1::real)])]])]"
  let ?dat = "\<lparr> Verts = [\<lparr> Vert_Id = 0, Vert_Tag = 0, Vert_C = [0, 0, 0, 1::real] \<rparr>], Nurbss = [] \<rparr>"
  have r: "(\<lambda>fn. Some (JSONText no_shapes_doc)) (''f'' @ ''.msh'') = Some (JSONText (JObj ?ms))"
    by (simp add: no_shapes_doc_def)
  have k: "\<forall>(k, j) \<in> set ?ms. \<not> matches ''Nurbss'' k"
    by (simp add: matches_def lower_def)
  have u: "Unmarshal exact_fl (JSONText (JObj ?ms)) = Inr ?dat"
    by (simp add: Unmarshal_def Data_member_def matches_Data matches_Vert
        Vert_member_def Data0_def Vert0_def dec_floats_def)
  have v: "\<forall>v \<in> set (Verts ?dat). 4 \<le> length (Vert_C v)" by simp
  have a: "ReadMsh exact_fl spec_nurbs (\<lambda>fn. Some (JSONText no_shapes_doc)) ''f'' = Inr []"
    using missing_shapes_field [of "\<lambda>fn. Some (JSONText no_shapes_doc)" "''f''" ?ms exact_fl ?dat spec_nurbs]
      r k u v by blast
  have "Unmarshal exact_fl NotJSON = Inl SyntaxError"
    by (simp add: Unmarshal_def)
  then have b: "ReadMsh exact_fl spec_nurbs (\<lambda>fn. Some NotJSON) ''f'' = Inl (io_err2 (''f'' @ ''.msh'') SyntaxError)"
    using missing_shapes_field [of "\<lambda>fn. Some NotJSON" "''f''" _ exact_fl _ spec_nurbs NotJSON SyntaxError]
    by blast
  have "Unmarshal exact_fl (JSONText (JObj [(''nurbss'', JInt 3)])) = Inl UnmarshalTypeError"
    by (simp add: Unmarshal_def Data_member_def matches_Data Data0_def matches_def lower_def)
  then have c: "ReadMsh exact_fl spec_nurbs (\<lambda>fn. Some (JSONText (JObj [(''nurbss'', JInt 3)]))) ''f''
       = Inl (io_err2 (''f'' @ ''.msh'') UnmarshalTypeError)"
    using missing_shapes_field [of "\<lambda>fn. Some (JSONText (JObj [(''nurbss'', JInt 3)]))" "''f''" _ exact_fl _ spec_nurbs
        "JSONText (JObj [(''nurbss'', JInt 3)])" UnmarshalTypeError]
    by blast
  from a b c show ?thesis by simp
qed

section \<open>Writing and reading back\<close>

















end
